theory Spec2Isabelle
  imports Main
begin

section \<open>Objects, values and errors\<close>

text \<open>
  A handle is a Python object of class \<open>Promise\<close> or \<open>Future\<close>. \<open>Promise c\<close> owns the
  resolution cell \<open>c\<close> (its \<open>_future\<close> and \<open>_lock\<close>); \<open>Future i c\<close> is the read-only
  object with identity \<open>i\<close> bound to the promise of cell \<open>c\<close>. Two handles are the same
  Python object exactly when they are equal.
\<close>

datatype handle = Promise nat | Future nat nat

fun cell :: "handle \<Rightarrow> nat" where
  "cell (Promise c) = c"
| "cell (Future i c) = c"

datatype seqkind = PyList | PyTuple

datatype 'a val =
    VNone
  | VAtom 'a
  | VInt int
  | VObj handle
  | VSeq seqkind "'a val list"

text \<open>The result of \<open>template.format(args)\<close>, kept as the template and its arguments.\<close>

datatype 'a pystr = Format string "'a val list"

datatype 'a exn =
    AlreadyResolvedError
  | AttributeError
  | ValueError string
  | TypeError
  | IndexError
  | AssertionError
  | MiraiError "'a pystr"
  | TimeoutError "'a pystr"
  | PyException "'a val"

datatype 'a rstate = Pending | Success "'a val" | Failure "'a exn"

section \<open>Closures\<close>

text \<open>
  The functions the library itself passes to \<open>flatmap\<close>, \<open>onsuccess\<close>, \<open>onfailure\<close> and
  \<open>respond\<close>, one constructor per closure of the source, holding the variables the
  closure captures. A function supplied by the caller acts on the caller's own state
  \<open>'u\<close> and either returns or raises.
\<close>

datatype ('a, 'u) flatfn =
    MapFn "'a val \<Rightarrow> 'u \<Rightarrow> ('a exn + 'a val) \<times> 'u"
  | FilterFn "'a val \<Rightarrow> 'u \<Rightarrow> ('a exn + bool) \<times> 'u"
  | FstFn
  | ExcFn "'a exn"

datatype ('a, 'u) succfn =
    SetValue handle
  | IfEmptySetValue nat
  | CollectOnSuccess nat nat nat
  | UserOnSuccess "'a val \<Rightarrow> 'u \<Rightarrow> ('a exn + unit) \<times> 'u"

datatype ('a, 'u) failfn =
    SetException handle
  | IfEmptySetException nat
  | CollectOnFailure nat
  | UserOnFailure "'a exn \<Rightarrow> 'u \<Rightarrow> ('a exn + unit) \<times> 'u"

datatype ('a, 'u) callback =
    OnSuccess "('a, 'u) succfn"
  | OnFailure "('a, 'u) failfn"
  | TransformRespond "('a, 'u) flatfn" nat
  | SelectRespond nat handle seqkind "handle list"

section \<open>The store\<close>

record ('a, 'u) world =
  outcome :: "nat \<Rightarrow> 'a rstate"
  done_callbacks :: "nat \<Rightarrow> ('a, 'u) callback list"
  lock_held :: "nat set"
  collect_xs :: "nat \<Rightarrow> 'a val list"
  collect_count :: "nat \<Rightarrow> int"
  sleeping :: "(nat \<times> nat) list"
  next_id :: nat
  user :: 'u

text \<open>
  An operation either does not return (\<open>None\<close>: it blocks for ever, or the dispatch is
  nested deeper than the fuel), or it returns a value, raises an exception, or leaves
  through \<open>sys.exit\<close>, in each case with the store it has reached.
\<close>

datatype ('x, 'a) res = Ret 'x | Raise "'a exn" | SysExit

type_synonym ('x, 'a, 'u) action = "('a, 'u) world \<Rightarrow> (('x, 'a) res \<times> ('a, 'u) world) option"

type_synonym ('a, 'u) dispatcher = "('a, 'u) callback \<Rightarrow> nat \<Rightarrow> (unit, 'a, 'u) action"

definition ret :: "'x \<Rightarrow> ('x, 'a, 'u) action" where
  "ret x = (\<lambda>w. Some (Ret x, w))"

definition raise :: "'a exn \<Rightarrow> ('x, 'a, 'u) action" where
  "raise e = (\<lambda>w. Some (Raise e, w))"

definition try_except_else ::
  "('x, 'a, 'u) action \<Rightarrow> ('a exn \<Rightarrow> ('y, 'a, 'u) action) \<Rightarrow> ('x \<Rightarrow> ('y, 'a, 'u) action)
    \<Rightarrow> ('y, 'a, 'u) action" where
  "try_except_else m h k = (\<lambda>w. case m w of
       None \<Rightarrow> None
     | Some (Ret x, w') \<Rightarrow> k x w'
     | Some (Raise e, w') \<Rightarrow> h e w'
     | Some (SysExit, w') \<Rightarrow> Some (SysExit, w'))"

definition bind_op :: "('x, 'a, 'u) action \<Rightarrow> ('x \<Rightarrow> ('y, 'a, 'u) action) \<Rightarrow> ('y, 'a, 'u) action" where
  "bind_op m k = try_except_else m raise k"

primrec for_each :: "('c \<Rightarrow> (unit, 'a, 'u) action) \<Rightarrow> 'c list \<Rightarrow> (unit, 'a, 'u) action" where
  "for_each f [] = ret ()"
| "for_each f (c # cs) = bind_op (f c) (\<lambda>_. for_each f cs)"

definition with_lock :: "nat \<Rightarrow> ('x, 'a, 'u) action \<Rightarrow> ('x, 'a, 'u) action" where
  "with_lock c m = (\<lambda>w.
     if c \<in> lock_held w then None
     else (case m (w\<lparr>lock_held := insert c (lock_held w)\<rparr>) of
             None \<Rightarrow> None
           | Some (r, w') \<Rightarrow> Some (r, w'\<lparr>lock_held := lock_held w' - {c}\<rparr>)))"

definition call_user :: "('v \<Rightarrow> 'u \<Rightarrow> ('a exn + 'x) \<times> 'u) \<Rightarrow> 'v \<Rightarrow> ('x, 'a, 'u) action" where
  "call_user f v = (\<lambda>w. case f v (user w) of
       (Inl e, u) \<Rightarrow> Some (Raise e, w\<lparr>user := u\<rparr>)
     | (Inr x, u) \<Rightarrow> Some (Ret x, w\<lparr>user := u\<rparr>))"

section \<open>The resolution cell\<close>

text \<open>
  \<open>concurrent.futures.Future\<close> is not part of the repository; its part used here is a
  state, written once, and a list of callbacks: \<open>add_done_callback\<close> appends while the
  cell is pending and calls at once when it is done, \<open>set_result\<close> and \<open>set_exception\<close>
  store the outcome and then call the registered callbacks in order. The callbacks are
  run by the dispatcher \<open>dc\<close>.
\<close>

definition set_outcome :: "('a, 'u) dispatcher \<Rightarrow> nat \<Rightarrow> 'a rstate \<Rightarrow> (unit, 'a, 'u) action" where
  "set_outcome dc c out = (\<lambda>w.
     for_each (\<lambda>cb. dc cb c) (done_callbacks w c) (w\<lparr>outcome := (outcome w)(c := out)\<rparr>))"

definition add_done_callback :: "('a, 'u) dispatcher \<Rightarrow> ('a, 'u) callback \<Rightarrow> nat \<Rightarrow> (unit, 'a, 'u) action" where
  "add_done_callback dc cb c = (\<lambda>w.
     if outcome w c \<noteq> Pending then dc cb c w
     else Some (Ret (), w\<lparr>done_callbacks := (done_callbacks w)(c := done_callbacks w c @ [cb])\<rparr>))"

section \<open>Promise\<close>

text \<open>\<open>Promise()\<close>: a new pending cell with no callback and a lock nobody holds.\<close>

definition new_promise :: "(handle, 'a, 'u) action" where
  "new_promise = (\<lambda>w. Some (Ret (Promise (next_id w)),
     w\<lparr>outcome := (outcome w)(next_id w := Pending),
       done_callbacks := (done_callbacks w)(next_id w := []),
       lock_held := lock_held w - {next_id w},
       next_id := Suc (next_id w)\<rparr>))"

text \<open>
  Modelled from the spec: \<open>utils.proxyto\<close>, which \<open>Future.__init__\<close> calls, is not in the
  sources. Following the spec, every operation on a Future other than \<open>setvalue\<close> and
  \<open>setexception\<close> is the operation of the bound Promise, so an operation on a handle
  \<open>h\<close> works on \<open>cell h\<close> and its \<open>self\<close> is \<open>Promise (cell h)\<close>.
\<close>

definition future :: "handle \<Rightarrow> (handle, 'a, 'u) action" where
  "future h = (\<lambda>w. Some (Ret (Future (next_id w) (cell h)), w\<lparr>next_id := Suc (next_id w)\<rparr>))"

definition isdefined :: "handle \<Rightarrow> (bool, 'a, 'u) action" where
  "isdefined h = (\<lambda>w. Some (Ret (outcome w (cell h) \<noteq> Pending), w))"

text \<open>
  \<open>get(timeout)\<close>: on a pending cell, a call without timeout waits for another thread
  and does not return here; with a timeout it raises \<open>TimeoutError\<close>.
\<close>

definition get :: "handle \<Rightarrow> nat option \<Rightarrow> ('a val, 'a, 'u) action" where
  "get h timeout = (\<lambda>w. case outcome w (cell h) of
       Success v \<Rightarrow> Some (Ret v, w)
     | Failure e \<Rightarrow> Some (Raise e, w)
     | Pending \<Rightarrow> (case timeout of None \<Rightarrow> None | Some t \<Rightarrow> Some (Raise (TimeoutError (Format [] [])), w)))"

definition getorelse :: "handle \<Rightarrow> 'a val \<Rightarrow> ('a val, 'a, 'u) action" where
  "getorelse h dflt = try_except_else (get h (Some 0)) (\<lambda>e. ret dflt) ret"

definition issuccess :: "handle \<Rightarrow> (bool option, 'a, 'u) action" where
  "issuccess h = bind_op (isdefined h) (\<lambda>d.
     if \<not> d then ret None
     else try_except_else (get h None) (\<lambda>e. ret (Some False)) (\<lambda>v. ret (Some True)))"

definition isfailure :: "handle \<Rightarrow> (bool option, 'a, 'u) action" where
  "isfailure h = bind_op (issuccess h) (\<lambda>v.
     case v of None \<Rightarrow> ret None | Some b \<Rightarrow> ret (Some (\<not> b)))"

definition setvalue :: "('a, 'u) dispatcher \<Rightarrow> handle \<Rightarrow> 'a val \<Rightarrow> (handle, 'a, 'u) action" where
  "setvalue dc h val = (case h of
       Future i c \<Rightarrow> raise AttributeError
     | Promise c \<Rightarrow> with_lock c (bind_op (isdefined h) (\<lambda>d.
         if d then raise AlreadyResolvedError
         else bind_op (set_outcome dc c (Success val)) (\<lambda>_. ret h))))"

definition setexception :: "('a, 'u) dispatcher \<Rightarrow> handle \<Rightarrow> 'a exn \<Rightarrow> (handle, 'a, 'u) action" where
  "setexception dc h e = (case h of
       Future i c \<Rightarrow> raise AttributeError
     | Promise c \<Rightarrow> with_lock c (bind_op (isdefined h) (\<lambda>d.
         if d then raise AlreadyResolvedError
         else bind_op (set_outcome dc c (Failure e)) (\<lambda>_. ret h))))"

definition "value" :: "('a, 'u) dispatcher \<Rightarrow> 'a val \<Rightarrow> (handle, 'a, 'u) action" where
  "value dc val = bind_op new_promise (\<lambda>f. bind_op (setvalue dc f val) (\<lambda>_. future f))"

definition exception :: "('a, 'u) dispatcher \<Rightarrow> 'a exn \<Rightarrow> (handle, 'a, 'u) action" where
  "exception dc exc = bind_op new_promise (\<lambda>f. bind_op (setexception dc f exc) (\<lambda>_. future f))"

definition respond :: "('a, 'u) dispatcher \<Rightarrow> handle \<Rightarrow> ('a, 'u) callback \<Rightarrow> (handle, 'a, 'u) action" where
  "respond dc h fn = bind_op (add_done_callback dc fn (cell h)) (\<lambda>_. ret (Promise (cell h)))"

definition onsuccess :: "('a, 'u) dispatcher \<Rightarrow> handle \<Rightarrow> ('a, 'u) succfn \<Rightarrow> (handle, 'a, 'u) action" where
  "onsuccess dc h fn = respond dc h (OnSuccess fn)"

definition onfailure :: "('a, 'u) dispatcher \<Rightarrow> handle \<Rightarrow> ('a, 'u) failfn \<Rightarrow> (handle, 'a, 'u) action" where
  "onfailure dc h fn = respond dc h (OnFailure fn)"

definition proxyto :: "('a, 'u) dispatcher \<Rightarrow> handle \<Rightarrow> handle \<Rightarrow> (handle, 'a, 'u) action" where
  "proxyto dc h other = bind_op (onsuccess dc h (SetValue other)) (\<lambda>s. onfailure dc s (SetException other))"

text \<open>\<open>update\<close> calls \<open>other.proxyto\<close>, which only a Promise or Future has.\<close>

definition update :: "('a, 'u) dispatcher \<Rightarrow> handle \<Rightarrow> 'a val \<Rightarrow> (handle, 'a, 'u) action" where
  "update dc h other = (case other of
       VObj q \<Rightarrow> bind_op (proxyto dc q (Promise (cell h))) (\<lambda>_. ret (Promise (cell h)))
     | _ \<Rightarrow> raise AttributeError)"

definition updateifempty :: "('a, 'u) dispatcher \<Rightarrow> handle \<Rightarrow> handle \<Rightarrow> (handle, 'a, 'u) action" where
  "updateifempty dc h other =
     bind_op (onsuccess dc other (IfEmptySetValue (cell h))) (\<lambda>s.
     bind_op (onfailure dc s (IfEmptySetException (cell h))) (\<lambda>_. ret (Promise (cell h))))"

definition transform :: "('a, 'u) dispatcher \<Rightarrow> handle \<Rightarrow> ('a, 'u) flatfn \<Rightarrow> (handle, 'a, 'u) action" where
  "transform dc h fn = bind_op new_promise (\<lambda>p.
     bind_op (respond dc h (TransformRespond fn (cell p))) (\<lambda>_. ret p))"

definition flatmap :: "('a, 'u) dispatcher \<Rightarrow> handle \<Rightarrow> ('a, 'u) flatfn \<Rightarrow> (handle, 'a, 'u) action" where
  "flatmap dc h fn = transform dc h fn"

definition map_p :: "('a, 'u) dispatcher \<Rightarrow> handle \<Rightarrow> ('a val \<Rightarrow> 'u \<Rightarrow> ('a exn + 'a val) \<times> 'u) \<Rightarrow> (handle, 'a, 'u) action" where
  "map_p dc h fn = flatmap dc h (MapFn fn)"

definition filter_p :: "('a, 'u) dispatcher \<Rightarrow> handle \<Rightarrow> ('a val \<Rightarrow> 'u \<Rightarrow> ('a exn + bool) \<times> 'u) \<Rightarrow> (handle, 'a, 'u) action" where
  "filter_p dc h fn = flatmap dc h (FilterFn fn)"

section \<open>The closures' bodies\<close>

text \<open>Unpacking the argument of \<open>lambda (fut, futs): fut\<close>.\<close>

fun unpack_pair :: "'a val \<Rightarrow> 'a exn + 'a val \<times> 'a val" where
  "unpack_pair (VSeq k [a, b]) = Inr (a, b)"
| "unpack_pair (VSeq k items) = Inl (ValueError ''unpack'')"
| "unpack_pair v = Inl TypeError"

definition call_flatfn :: "('a, 'u) dispatcher \<Rightarrow> ('a, 'u) flatfn \<Rightarrow> 'a val \<Rightarrow> ('a val, 'a, 'u) action" where
  "call_flatfn dc fn v = (case fn of
       MapFn f \<Rightarrow> bind_op (call_user f v) (\<lambda>x. bind_op (value dc x) (\<lambda>q. ret (VObj q)))
     | FilterFn f \<Rightarrow> bind_op (call_user f v) (\<lambda>b.
         if b then bind_op (value dc v) (\<lambda>q. ret (VObj q))
         else bind_op (exception dc (MiraiError (Format ''Value {} was filtered out'' [v]))) (\<lambda>q. ret (VObj q)))
     | FstFn \<Rightarrow> (case unpack_pair v of Inl e \<Rightarrow> raise e | Inr (fut, futs) \<Rightarrow> ret fut)
     | ExcFn e \<Rightarrow> bind_op (exception dc e) (\<lambda>q. ret (VObj q)))"

text \<open>The function \<open>flatmap\<close> hands to \<open>transform\<close>: \<open>assert fut.isdefined(); return fn(fut.get())\<close>.\<close>

definition flatmap_transform :: "('a, 'u) dispatcher \<Rightarrow> ('a, 'u) flatfn \<Rightarrow> nat \<Rightarrow> ('a val, 'a, 'u) action" where
  "flatmap_transform dc fn c = bind_op (isdefined (Promise c)) (\<lambda>d.
     if \<not> d then raise AssertionError
     else bind_op (get (Promise c) None) (\<lambda>v. call_flatfn dc fn v))"

definition call_succfn :: "('a, 'u) dispatcher \<Rightarrow> ('a, 'u) succfn \<Rightarrow> 'a val \<Rightarrow> (unit, 'a, 'u) action" where
  "call_succfn dc fn v = (case fn of
       SetValue other \<Rightarrow> bind_op (setvalue dc other v) (\<lambda>_. ret ())
     | IfEmptySetValue p \<Rightarrow>
         try_except_else (setvalue dc (Promise p) v)
           (\<lambda>e. if e = AlreadyResolvedError then ret ()
                else bind_op (setexception dc (Promise p) e) (\<lambda>_. ret ()))
           (\<lambda>_. ret ())
     | CollectOnSuccess a i p \<Rightarrow> (\<lambda>w.
         if \<not> i < length (collect_xs w a) then Some (Raise IndexError, w)
         else
           let w1 = w\<lparr>collect_xs := (collect_xs w)(a := (collect_xs w a)[i := v])\<rparr>;
               w2 = w1\<lparr>collect_count := (collect_count w1)(a := collect_count w1 a - 1)\<rparr>
           in if collect_count w2 a = 0
              then bind_op (value dc (VSeq PyList (collect_xs w2 a))) (\<lambda>q.
                   bind_op (updateifempty dc (Promise p) q) (\<lambda>_. ret ())) w2
              else Some (Ret (), w2))
     | UserOnSuccess f \<Rightarrow> call_user f v)"

definition call_failfn :: "('a, 'u) dispatcher \<Rightarrow> ('a, 'u) failfn \<Rightarrow> 'a exn \<Rightarrow> (unit, 'a, 'u) action" where
  "call_failfn dc fn e = (case fn of
       SetException other \<Rightarrow> bind_op (setexception dc other e) (\<lambda>_. ret ())
     | IfEmptySetException p \<Rightarrow>
         try_except_else (setexception dc (Promise p) e)
           (\<lambda>e'. if e' = AlreadyResolvedError then ret ()
                 else bind_op (setexception dc (Promise p) e') (\<lambda>_. ret ()))
           (\<lambda>_. ret ())
     | CollectOnFailure p \<Rightarrow> bind_op (exception dc e) (\<lambda>q.
         bind_op (updateifempty dc (Promise p) q) (\<lambda>_. ret ()))
     | UserOnFailure f \<Rightarrow> call_user f e)"

text \<open>What \<open>respond\<close> was given, applied to the resolved promise \<open>self\<close> of cell \<open>c\<close>.\<close>

definition respond_fn :: "('a, 'u) dispatcher \<Rightarrow> ('a, 'u) callback \<Rightarrow> nat \<Rightarrow> (unit, 'a, 'u) action" where
  "respond_fn dc cb c = (case cb of
       OnSuccess fn \<Rightarrow> bind_op (isdefined (Promise c)) (\<lambda>d.
         if \<not> d then raise AssertionError
         else try_except_else (get (Promise c) None) (\<lambda>e. ret ()) (\<lambda>v. call_succfn dc fn v))
     | OnFailure fn \<Rightarrow> bind_op (isdefined (Promise c)) (\<lambda>d.
         if \<not> d then raise AssertionError
         else try_except_else (get (Promise c) None) (\<lambda>e. call_failfn dc fn e) (\<lambda>v. ret ()))
     | TransformRespond fn p \<Rightarrow> bind_op (isdefined (Promise c)) (\<lambda>d.
         if \<not> d then raise AssertionError
         else try_except_else (flatmap_transform dc fn c)
                (\<lambda>e. bind_op (setexception dc (Promise p) e) (\<lambda>_. ret ()))
                (\<lambda>q. bind_op (update dc (Promise p) q) (\<lambda>_. ret ())))
     | SelectRespond p f k fs \<Rightarrow>
         bind_op (value dc (VSeq PyTuple [VObj f, VSeq k (map VObj (filter (\<lambda>g. g \<noteq> f) fs))])) (\<lambda>q.
         bind_op (updateifempty dc (Promise p) q) (\<lambda>_. ret ())))"

text \<open>
  \<open>done_callback\<close> of \<open>respond\<close>: an exception of the callback ends the process through
  \<open>sys.exit(1)\<close>. The fuel bounds how deeply callbacks call callbacks.
\<close>

definition exit_on_exception :: "(unit, 'a, 'u) action \<Rightarrow> (unit, 'a, 'u) action" where
  "exit_on_exception m = try_except_else m (\<lambda>e w. Some (SysExit, w)) ret"

primrec done_callback :: "nat \<Rightarrow> ('a, 'u) dispatcher" where
  "done_callback 0 = (\<lambda>cb c w. None)"
| "done_callback (Suc n) = (\<lambda>cb c. exit_on_exception (respond_fn (done_callback n) cb c))"

section \<open>Aggregation\<close>

definition collect :: "('a, 'u) dispatcher \<Rightarrow> handle list \<Rightarrow> (handle, 'a, 'u) action" where
  "collect dc fs =
     (if length fs = 0 then value dc (VSeq PyList [])
      else (\<lambda>w.
        let a = next_id w;
            w1 = w\<lparr>collect_xs := (collect_xs w)(a := replicate (length fs) VNone),
                   collect_count := (collect_count w)(a := int (length fs)),
                   next_id := Suc a\<rparr>
        in bind_op new_promise (\<lambda>p.
           bind_op (for_each (\<lambda>i.
               bind_op (onsuccess dc (fs ! i) (CollectOnSuccess a i (cell p))) (\<lambda>s.
               bind_op (onfailure dc s (CollectOnFailure (cell p))) (\<lambda>_. ret ())))
             [0..<length fs]) (\<lambda>_. ret p)) w1))"

definition select :: "('a, 'u) dispatcher \<Rightarrow> seqkind \<Rightarrow> handle list \<Rightarrow> (handle, 'a, 'u) action" where
  "select dc k fs = bind_op new_promise (\<lambda>p.
     if length fs = 0 then raise (ValueError ''Promise.select requires at least one future'')
     else bind_op (for_each (\<lambda>f.
              bind_op (respond dc f (SelectRespond (cell p) f k fs)) (\<lambda>_. ret ())) fs)
            (\<lambda>_. ret p))"

definition or_p :: "('a, 'u) dispatcher \<Rightarrow> handle \<Rightarrow> handle list \<Rightarrow> (handle, 'a, 'u) action" where
  "or_p dc h others = bind_op (select dc PyTuple (Promise (cell h) # others)) (\<lambda>s. flatmap dc s FstFn)"

section \<open>Timers\<close>

text \<open>
  \<open>Promise.call(fn)\<close> for the sleeping task of \<open>wait\<close>: the task is submitted to the
  pool, and the pool's future, a pending cell that the pool resolves to \<open>None\<close> when the
  sleep ends (\<open>wake\<close>) without going through \<open>setvalue\<close>, is wrapped in a Promise, of
  which \<open>call\<close> returns the Future. \<open>Promise.wait(duration)\<close> returns the Future of that.
\<close>

definition call_sleep :: "nat \<Rightarrow> (handle, 'a, 'u) action" where
  "call_sleep duration = bind_op (\<lambda>w. Some (Ret (Promise (next_id w)),
       w\<lparr>outcome := (outcome w)(next_id w := Pending),
         done_callbacks := (done_callbacks w)(next_id w := []),
         lock_held := lock_held w - {next_id w},
         sleeping := sleeping w @ [(next_id w, duration)],
         next_id := Suc (next_id w)\<rparr>)) future"

definition wait :: "nat \<Rightarrow> (handle, 'a, 'u) action" where
  "wait duration = bind_op (call_sleep duration) future"


text \<open>The exception \<open>e\<close> that \<open>within\<close> builds before it starts the timer.\<close>

definition timeout_error :: "nat \<Rightarrow> 'a exn" where
  "timeout_error d = TimeoutError (Format ''Promise did not finish in {} seconds'' [VInt (int d)])"

definition within :: "('a, 'u) dispatcher \<Rightarrow> handle \<Rightarrow> nat \<Rightarrow> (handle, 'a, 'u) action" where
  "within dc h duration =
     bind_op (wait duration) (\<lambda>t.
     bind_op (flatmap dc t (ExcFn (timeout_error duration))) (\<lambda>x.
     or_p dc h [x]))"

section \<open>Resolutions by the caller\<close>

text \<open>
  An event is one call of \<open>setvalue\<close> or \<open>setexception\<close> on a promise, made by whoever
  owns it; \<open>resolve_all\<close> makes the calls one after the other and requires each to return.
\<close>

datatype 'a event = Succeeds nat "'a val" | Fails nat "'a exn"

fun ev_cell :: "'a event \<Rightarrow> nat" where
  "ev_cell (Succeeds c v) = c"
| "ev_cell (Fails c e) = c"

fun ev_outcome :: "'a event \<Rightarrow> 'a rstate" where
  "ev_outcome (Succeeds c v) = Success v"
| "ev_outcome (Fails c e) = Failure e"

fun resolve :: "('a, 'u) dispatcher \<Rightarrow> 'a event \<Rightarrow> (handle, 'a, 'u) action" where
  "resolve dc (Succeeds c v) = setvalue dc (Promise c) v"
| "resolve dc (Fails c e) = setexception dc (Promise c) e"

primrec resolve_all :: "('a, 'u) dispatcher \<Rightarrow> 'a event list \<Rightarrow> ('a, 'u) world \<Rightarrow> ('a, 'u) world option" where
  "resolve_all dc [] w = Some w"
| "resolve_all dc (ev # evs) w = (case resolve dc ev w of
       Some (Ret h, w') \<Rightarrow> resolve_all dc evs w'
     | _ \<Rightarrow> None)"

text \<open>The pair \<open>select\<close> resolves to: the input \<open>f\<close> and \<open>fs\<close> without \<open>f\<close>, in the order of \<open>fs\<close>.\<close>

definition selected :: "handle \<Rightarrow> seqkind \<Rightarrow> handle list \<Rightarrow> 'a val" where
  "selected f k fs = VSeq PyTuple [VObj f, VSeq k (map VObj (removeAll f fs))]"

section \<open>A store to start from\<close>

text \<open>The store of a process that has created no promise yet.\<close>

definition init_world :: "(int, nat) world" where
  "init_world = \<lparr>outcome = (\<lambda>c. Pending), done_callbacks = (\<lambda>c. []), lock_held = {},
     collect_xs = (\<lambda>a. []), collect_count = (\<lambda>a. 0), sleeping = [], next_id = 0, user = 0\<rparr>"

text \<open>A store holding promises \<open>0, 1, \<dots>\<close> with the given outcomes and no callbacks.\<close>

definition world_of :: "int rstate list \<Rightarrow> (int, nat) world" where
  "world_of outs = init_world\<lparr>outcome := (\<lambda>c. if c < length outs then outs ! c else Pending),
     next_id := length outs\<rparr>"

section \<open>What collect is expected to resolve to\<close>









section \<open>Stores that follow one another\<close>

text \<open>
  \<open>later_store w w'\<close>: no object has disappeared, no lock is held in \<open>w'\<close> that was free
  in \<open>w\<close>, and every promise of \<open>w\<close> that was resolved has the same outcome in \<open>w'\<close>.
  An operation is \<open>single_assignment\<close> when every store it ends in, by returning, raising
  or exiting, is a later store of the one it started from.
\<close>

definition later_store :: "('a, 'u) world \<Rightarrow> ('a, 'u) world \<Rightarrow> bool" where
  "later_store w w' =
     (next_id w \<le> next_id w' \<and> lock_held w' \<subseteq> lock_held w
      \<and> (\<forall>c<next_id w. outcome w c \<noteq> Pending \<longrightarrow> outcome w' c = outcome w c))"

definition single_assignment :: "('x, 'a, 'u) action \<Rightarrow> bool" where
  "single_assignment m = (\<forall>w r w'. m w = Some (r, w') \<longrightarrow> later_store w w')"

section \<open>Running the operations\<close>

lemma bind_op_apply:
  "bind_op m k w = (case m w of None \<Rightarrow> None | Some (Ret x, w') \<Rightarrow> k x w'
     | Some (Raise e, w') \<Rightarrow> Some (Raise e, w') | Some (SysExit, w') \<Rightarrow> Some (SysExit, w'))"
  by (simp add: bind_op_def try_except_else_def raise_def split: option.splits res.splits)

lemmas exec_defs = bind_op_apply try_except_else_def ret_def raise_def with_lock_def call_user_def
  set_outcome_def add_done_callback_def new_promise_def future_def isdefined_def get_def
  setvalue_def setexception_def value_def exception_def respond_def onsuccess_def onfailure_def
  proxyto_def update_def updateifempty_def transform_def flatmap_def map_p_def filter_p_def
  call_flatfn_def flatmap_transform_def call_succfn_def call_failfn_def respond_fn_def
  exit_on_exception_def

section \<open>Single assignment\<close>



text \<open>The steps of the monad and the primitive operations.\<close>

lemma kept_refl: "later_store w w"
  by (simp add: later_store_def)

lemma kept_trans: "later_store w w1 \<Longrightarrow> later_store w1 w2 \<Longrightarrow> later_store w w2"
  by (auto simp add: later_store_def)

lemma saI: "(\<And>w r w'. m w = Some (r, w') \<Longrightarrow> later_store w w') \<Longrightarrow> single_assignment m"
  by (simp add: single_assignment_def)

lemma saD: "single_assignment m \<Longrightarrow> m w = Some (r, w') \<Longrightarrow> later_store w w'"
  by (simp add: single_assignment_def)

lemma sa_ret: "single_assignment (ret x)"
  by (simp add: single_assignment_def ret_def kept_refl)

lemma sa_raise: "single_assignment (raise e)"
  by (simp add: single_assignment_def raise_def kept_refl)

lemma sa_try:
  assumes "single_assignment m" and "\<And>e. single_assignment (h e)" and "\<And>x. single_assignment (k x)"
  shows "single_assignment (try_except_else m h k)"
proof (rule saI)
  fix w r w' assume a: "try_except_else m h k w = Some (r, w')"
  then obtain r1 w1 where m: "m w = Some (r1, w1)"
    by (auto simp add: try_except_else_def split: option.splits)
  have k1: "later_store w w1" using saD [OF assms(1) m] .
  show "later_store w w'"
  proof (cases r1)
    case (Ret x)
    then have "k x w1 = Some (r, w')" using a m by (simp add: try_except_else_def)
    then show ?thesis using saD [OF assms(3)] k1 kept_trans by blast
  next
    case (Raise e)
    then have "h e w1 = Some (r, w')" using a m by (simp add: try_except_else_def)
    then show ?thesis using saD [OF assms(2)] k1 kept_trans by blast
  next
    case SysExit
    then show ?thesis using a m k1 by (simp add: try_except_else_def)
  qed
qed

lemma sa_bind:
  "single_assignment m \<Longrightarrow> (\<And>x. single_assignment (k x)) \<Longrightarrow> single_assignment (bind_op m k)"
  by (simp add: bind_op_def sa_try sa_raise)

lemma sa_for_each:
  "(\<And>c. single_assignment (f c)) \<Longrightarrow> single_assignment (for_each f cs)"
  by (induction cs) (simp_all add: sa_ret sa_bind)

lemma sa_with_lock:
  assumes "single_assignment m" shows "single_assignment (with_lock c m)"
proof (rule saI)
  fix w r w' assume "with_lock c m w = Some (r, w')"
  then obtain w1 where run: "m (w\<lparr>lock_held := insert c (lock_held w)\<rparr>) = Some (r, w1)"
    and w': "w' = w1\<lparr>lock_held := lock_held w1 - {c}\<rparr>"
    by (auto simp add: with_lock_def split: if_splits option.splits)
  have "later_store (w\<lparr>lock_held := insert c (lock_held w)\<rparr>) w1"
    using saD [OF assms run] .
  then show "later_store w w'" unfolding w' by (auto simp add: later_store_def)
qed

lemma sa_call_user: "single_assignment (call_user f v)"
  by (rule saI) (auto simp add: call_user_def later_store_def split: prod.splits sum.splits)

lemma sa_new_promise: "single_assignment new_promise"
  by (rule saI) (auto simp add: new_promise_def later_store_def)

lemma sa_future: "single_assignment (future h)"
  by (rule saI) (auto simp add: future_def later_store_def)

lemma sa_isdefined: "single_assignment (isdefined h)"
  by (rule saI) (auto simp add: isdefined_def later_store_def)

lemma sa_get: "single_assignment (get h t)"
  by (rule saI) (auto simp add: get_def later_store_def split: rstate.splits option.splits)

lemma sa_if: "single_assignment a \<Longrightarrow> single_assignment b \<Longrightarrow> single_assignment (if c then a else b)"
  by simp

lemma sa_add_done_callback:
  assumes "\<And>cb c. single_assignment (dc cb c)"
  shows "single_assignment (add_done_callback dc cb c)"
proof (rule saI)
  fix w r w' assume a: "add_done_callback dc cb c w = Some (r, w')"
  show "later_store w w'"
  proof (cases "outcome w c \<noteq> Pending")
    case True
    then show ?thesis using a saD [OF assms] by (simp add: add_done_callback_def)
  next
    case False
    then show ?thesis using a by (auto simp add: add_done_callback_def later_store_def)
  qed
qed

lemma kept_set_outcome:
  assumes dc: "\<And>cb c. single_assignment (dc cb c)"
    and run: "set_outcome dc c out w = Some (r, w')" and pend: "outcome w c = Pending"
  shows "later_store w w'"
proof -
  have "later_store w (w\<lparr>outcome := (outcome w)(c := out)\<rparr>)"
    using pend by (auto simp add: later_store_def)
  moreover have "later_store (w\<lparr>outcome := (outcome w)(c := out)\<rparr>) w'"
    using run saD [OF sa_for_each [of "\<lambda>cb. dc cb c", OF dc]] by (simp add: set_outcome_def)
  ultimately show ?thesis by (rule kept_trans)
qed

lemma sa_resolve_body:
  assumes dc: "\<And>cb c. single_assignment (dc cb c)"
  shows "single_assignment (bind_op (isdefined (Promise c)) (\<lambda>d.
         if d then raise AlreadyResolvedError
         else bind_op (set_outcome dc c out) (\<lambda>_. ret h)))"
proof (rule saI)
  fix w r w'
  assume a: "bind_op (isdefined (Promise c)) (\<lambda>d.
         if d then raise AlreadyResolvedError
         else bind_op (set_outcome dc c out) (\<lambda>_. ret h)) w = Some (r, w')"
  show "later_store w w'"
  proof (cases "outcome w c = Pending")
    case True
    then obtain r1 where run: "set_outcome dc c out w = Some (r1, w')"
      using a by (auto simp add: bind_op_apply isdefined_def ret_def split: option.splits res.splits)
    show ?thesis by (rule kept_set_outcome [where dc = dc, OF dc run True])
  next
    case False
    then show ?thesis using a by (simp add: bind_op_apply isdefined_def raise_def kept_refl)
  qed
qed

lemma sa_setvalue:
  assumes "\<And>cb c. single_assignment (dc cb c)"
  shows "single_assignment (setvalue dc h v)"
  using assms by (cases h) (simp_all add: setvalue_def sa_raise sa_with_lock sa_resolve_body)

lemma sa_setexception:
  assumes "\<And>cb c. single_assignment (dc cb c)"
  shows "single_assignment (setexception dc h e)"
  using assms by (cases h) (simp_all add: setexception_def sa_raise sa_with_lock sa_resolve_body)


lemmas sa_basic = sa_ret sa_raise sa_try sa_bind sa_for_each sa_with_lock sa_call_user
  sa_new_promise sa_future sa_isdefined sa_get sa_add_done_callback sa_setvalue sa_setexception

lemma sa_value:
  assumes "\<And>cb c. single_assignment (dc cb c)"
  shows "single_assignment (value dc v)"
  using assms by (simp add: value_def sa_basic)

lemma sa_exception:
  assumes "\<And>cb c. single_assignment (dc cb c)"
  shows "single_assignment (exception dc e)"
  using assms by (simp add: exception_def sa_basic)

lemma sa_respond:
  assumes "\<And>cb c. single_assignment (dc cb c)"
  shows "single_assignment (respond dc h cb)"
  using assms by (simp add: respond_def sa_basic)

lemma sa_update:
  assumes "\<And>cb c. single_assignment (dc cb c)"
  shows "single_assignment (update dc h other)"
  using assms
  by (cases other) (simp_all add: update_def proxyto_def onsuccess_def onfailure_def sa_respond sa_basic)

lemma sa_updateifempty:
  assumes "\<And>cb c. single_assignment (dc cb c)"
  shows "single_assignment (updateifempty dc h other)"
  using assms by (simp add: updateifempty_def onsuccess_def onfailure_def sa_respond sa_basic)

lemma sa_transform:
  assumes "\<And>cb c. single_assignment (dc cb c)"
  shows "single_assignment (transform dc h fn)"
  using assms by (simp add: transform_def sa_respond sa_basic)

lemma sa_call_flatfn:
  assumes "\<And>cb c. single_assignment (dc cb c)"
  shows "single_assignment (call_flatfn dc fn v)"
  using assms
  by (cases fn)
     (simp_all add: call_flatfn_def sa_value sa_exception sa_basic split: sum.splits prod.splits)

lemma sa_flatmap_transform:
  assumes "\<And>cb c. single_assignment (dc cb c)"
  shows "single_assignment (flatmap_transform dc fn c)"
  using assms by (simp add: flatmap_transform_def sa_call_flatfn sa_basic)

lemma sa_collect_onsuccess:
  assumes dc: "\<And>cb c. single_assignment (dc cb c)"
  shows "single_assignment (call_succfn dc (CollectOnSuccess a i p) v)"
proof (rule saI)
  fix w r w' assume run: "call_succfn dc (CollectOnSuccess a i p) v w = Some (r, w')"
  define w2 where "w2 = w\<lparr>collect_xs := (collect_xs w)(a := (collect_xs w a)[i := v]),
       collect_count := (collect_count w)(a := collect_count w a - 1)\<rparr>"
  have k2: "later_store w w2" by (simp add: w2_def later_store_def)
  have sa: "single_assignment (bind_op (value dc (VSeq PyList (collect_xs w2 a))) (\<lambda>q.
                   bind_op (updateifempty dc (Promise p) q) (\<lambda>_. ret ())))"
    using dc by (simp add: sa_value sa_updateifempty sa_basic)
  from run consider "w' = w" | "w' = w2"
    | "bind_op (value dc (VSeq PyList (collect_xs w2 a))) (\<lambda>q.
                   bind_op (updateifempty dc (Promise p) q) (\<lambda>_. ret ())) w2 = Some (r, w')"
    by (auto simp add: call_succfn_def Let_def w2_def split: if_splits)
  then show "later_store w w'"
  proof cases
    case 1 then show ?thesis by (simp add: kept_refl)
  next
    case 2 then show ?thesis using k2 by simp
  next
    case 3 then show ?thesis using saD [OF sa] k2 kept_trans by blast
  qed
qed

lemma sa_call_succfn:
  assumes "\<And>cb c. single_assignment (dc cb c)"
  shows "single_assignment (call_succfn dc fn v)"
proof (cases fn)
  case (CollectOnSuccess a i p)
  then show ?thesis using sa_collect_onsuccess [OF assms] by simp
qed (use assms in \<open>simp_all add: call_succfn_def sa_basic\<close>)

lemma sa_call_failfn:
  assumes "\<And>cb c. single_assignment (dc cb c)"
  shows "single_assignment (call_failfn dc fn e)"
  using assms
  by (cases fn) (simp_all add: call_failfn_def sa_exception sa_updateifempty sa_basic)

lemma sa_respond_fn:
  assumes "\<And>cb c. single_assignment (dc cb c)"
  shows "single_assignment (respond_fn dc cb c)"
  using assms
  by (cases cb)
     (simp_all add: respond_fn_def sa_call_succfn sa_call_failfn sa_flatmap_transform
        sa_update sa_updateifempty sa_value sa_basic)

lemma sa_exit_on_exception:
  assumes "single_assignment m" shows "single_assignment (exit_on_exception m)"
proof -
  have "\<And>e. single_assignment (\<lambda>w. Some (SysExit :: (unit, 'a) res, w :: ('a, 'b) world))"
    by (rule saI) (simp add: kept_refl)
  then show ?thesis using assms by (simp add: exit_on_exception_def sa_try sa_ret)
qed

lemma sa_done_callback: "single_assignment (done_callback n cb c)"
proof (induction n arbitrary: cb c)
  case 0
  show ?case by (simp add: single_assignment_def)
next
  case (Suc n)
  show ?case using Suc by (simp add: sa_exit_on_exception sa_respond_fn)
qed


lemma sa_collect:
  assumes dc: "\<And>cb c. single_assignment (dc cb c)"
  shows "single_assignment (collect dc fs)"
proof (cases "length fs = 0")
  case True
  then show ?thesis using dc by (simp add: collect_def sa_value)
next
  case False
  show ?thesis
  proof (rule saI)
    fix w r w' assume run: "collect dc fs w = Some (r, w')"
    define w1 where "w1 = w\<lparr>collect_xs := (collect_xs w)(next_id w := replicate (length fs) VNone),
                   collect_count := (collect_count w)(next_id w := int (length fs)),
                   next_id := Suc (next_id w)\<rparr>"
    define body :: "(handle, 'a, 'b) action" where "body = bind_op new_promise (\<lambda>p.
           bind_op (for_each (\<lambda>i.
               bind_op (onsuccess dc (fs ! i) (CollectOnSuccess (next_id w) i (cell p))) (\<lambda>s.
               bind_op (onfailure dc s (CollectOnFailure (cell p))) (\<lambda>_. ret ())))
             [0..<length fs]) (\<lambda>_. ret p))"
    have k1: "later_store w w1" by (simp add: w1_def later_store_def)
    have sa: "single_assignment body"
      using dc unfolding body_def by (simp add: onsuccess_def onfailure_def sa_respond sa_basic)
    have "body w1 = Some (r, w')"
      using run False by (simp add: collect_def Let_def w1_def body_def)
    then show "later_store w w'" using saD [OF sa] k1 kept_trans by blast
  qed
qed

lemma sa_select:
  assumes "\<And>cb c. single_assignment (dc cb c)"
  shows "single_assignment (select dc k fs)"
  using assms by (simp add: select_def sa_respond sa_basic)

lemma sa_or_p:
  assumes "\<And>cb c. single_assignment (dc cb c)"
  shows "single_assignment (or_p dc h others)"
  using assms by (simp add: or_p_def flatmap_def sa_select sa_transform sa_basic)

lemma sa_wait: "single_assignment (wait d)"
proof -
  have "single_assignment (\<lambda>w. Some (Ret (Promise (next_id w)),
       w\<lparr>outcome := (outcome w)(next_id w := Pending),
         done_callbacks := (done_callbacks w)(next_id w := []),
         lock_held := lock_held w - {next_id w},
         sleeping := sleeping w @ [(next_id w, d)],
         next_id := Suc (next_id w)\<rparr>) :: ((handle, 'a) res \<times> ('a, 'b) world) option)"
    by (rule saI) (auto simp add: later_store_def)
  then show ?thesis by (simp add: wait_def call_sleep_def sa_basic)
qed

lemma sa_within:
  assumes "\<And>cb c. single_assignment (dc cb c)"
  shows "single_assignment (within dc h d)"
  using assms by (simp add: within_def flatmap_def sa_wait sa_transform sa_or_p sa_basic)

lemma sa_resolve: "single_assignment (resolve (done_callback n) ev)"
  by (cases ev) (simp_all add: sa_setvalue sa_setexception sa_done_callback)

lemma kept_resolve_all:
  "resolve_all (done_callback n) evs w = Some w' \<Longrightarrow> later_store w w'"
proof (induction evs arbitrary: w)
  case Nil
  then show ?case by (simp add: kept_refl)
next
  case (Cons ev evs)
  then obtain h w1 where r: "resolve (done_callback n) ev w = Some (Ret h, w1)"
    and rest: "resolve_all (done_callback n) evs w1 = Some w'"
    by (auto split: option.splits prod.splits res.splits)
  show ?case using saD [OF sa_resolve r] Cons.IH [OF rest] by (rule kept_trans)
qed

text \<open>
  A promise resolves at most once: whatever callbacks are registered and however deeply
  they call each other, when an operation returns, raises or exits, every promise that
  was resolved before it still has the outcome it had, and no lock that was free before
  it is left held.
\<close>

lemma resolved_outcome_is_final:
  assumes "c < next_id w" and "outcome w c \<noteq> Pending"
    and "m \<in> {setvalue (done_callback n) h v, setexception (done_callback n) h e,
               update (done_callback n) h (VObj q), updateifempty (done_callback n) h q,
               respond (done_callback n) h cb, flatmap (done_callback n) h fn,
               map_p (done_callback n) h f, filter_p (done_callback n) h g,
               collect (done_callback n) fs, select (done_callback n) k fs,
               or_p (done_callback n) h fs, within (done_callback n) h d}"
    and "m w = Some (r, w')"
  shows "outcome w' c = outcome w c \<and> lock_held w' \<subseteq> lock_held w"
proof -
  have "single_assignment m"
    using assms(3)
    by (auto simp add: map_p_def filter_p_def flatmap_def
        intro: sa_setvalue sa_setexception sa_update sa_updateifempty sa_respond sa_transform
          sa_collect sa_select sa_or_p sa_within sa_done_callback)
  from saD [OF this assms(4)] show ?thesis using assms(1,2) by (simp add: later_store_def)
qed

section \<open>Probes\<close>


section \<open>Aggregation over no input\<close>

text \<open>
  C6. \<open>collect\<close> of the empty sequence returns at once, whatever the dispatcher, a future
  whose promise is already resolved to the empty list; no callback is registered.
\<close>

theorem collect_empty:
  "collect dc [] w = Some (Ret (Future (Suc (next_id w)) (next_id w)),
     w\<lparr>outcome := (outcome w)(next_id w := Success (VSeq PyList [])),
       done_callbacks := (done_callbacks w)(next_id w := []),
       lock_held := lock_held w - {next_id w},
       next_id := Suc (Suc (next_id w))\<rparr>)"
  by (simp add: collect_def exec_defs)

text \<open>
  C5. \<open>select\<close> of the empty sequence raises the \<open>ValueError\<close> of the source, after it
  has created the promise it would have returned. (\<open>or_\<close> always passes \<open>self\<close> as
  first input, so it never reaches this case.)
\<close>

theorem select_empty:
  "select dc k [] w = Some (Raise (ValueError ''Promise.select requires at least one future''),
     w\<lparr>outcome := (outcome w)(next_id w := Pending),
       done_callbacks := (done_callbacks w)(next_id w := []),
       lock_held := lock_held w - {next_id w},
       next_id := Suc (next_id w)\<rparr>)"
  by (simp add: select_def exec_defs)

section \<open>map and filter\<close>














section \<open>select\<close>

lemma filter_neq_removeAll: "filter (\<lambda>g. g \<noteq> f) fs = removeAll f fs"
  by (induction fs) auto

lemma fire_select:
  assumes "p < next_id w" and "done_callbacks w p = []" and "p \<notin> lock_held w"
  shows "done_callback (Suc (Suc m)) (SelectRespond p f k fs) c w = Some (Ret (),
     w\<lparr>outcome := (outcome w)(next_id w := Success (selected f k fs),
          p := (if outcome w p = Pending then Success (selected f k fs) else outcome w p)),
       done_callbacks := (done_callbacks w)(next_id w := []),
       lock_held := lock_held w - {next_id w},
       next_id := Suc (Suc (next_id w))\<rparr>)"
  using assms
  by (cases "outcome w p = Pending")
     (auto simp add: exec_defs selected_def filter_neq_removeAll fun_upd_twist
        intro!: world.equality ext)


lemma respond_select_step:
  assumes "p < next_id w" and "done_callbacks w p = []" and "p \<notin> lock_held w"
    and "cell f < next_id w" and "cell f \<noteq> p"
  shows "bind_op (respond (done_callback (Suc (Suc m))) f (SelectRespond p f k fs)) (\<lambda>_. ret ()) w =
     Some (Ret (),
       if outcome w (cell f) = Pending
       then w\<lparr>done_callbacks := (done_callbacks w)(cell f := done_callbacks w (cell f) @ [SelectRespond p f k fs])\<rparr>
       else w\<lparr>outcome := (outcome w)(next_id w := Success (selected f k fs),
                p := (if outcome w p = Pending then Success (selected f k fs) else outcome w p)),
              done_callbacks := (done_callbacks w)(next_id w := []),
              lock_held := lock_held w - {next_id w},
              next_id := Suc (Suc (next_id w))\<rparr>)"
  using assms fire_select [of p w m f k fs "cell f"]
  by (simp add: respond_def add_done_callback_def bind_op_apply ret_def)

lemma select_loop:
  assumes "p < next_id w" and "done_callbacks w p = []" and "p \<notin> lock_held w"
    and "\<forall>f\<in>set gs. cell f < next_id w \<and> cell f \<noteq> p"
  shows "\<exists>w'. for_each (\<lambda>f. bind_op (respond (done_callback (Suc (Suc m))) f (SelectRespond p f k fs)) (\<lambda>_. ret ())) gs w
        = Some (Ret (), w')
     \<and> next_id w \<le> next_id w' \<and> done_callbacks w' p = [] \<and> p \<notin> lock_held w'
     \<and> outcome w' p = (if outcome w p \<noteq> Pending then outcome w p
          else case find (\<lambda>f. outcome w (cell f) \<noteq> Pending) gs of
                 None \<Rightarrow> Pending | Some f \<Rightarrow> Success (selected f k fs))
     \<and> (\<forall>c<next_id w. c \<noteq> p \<longrightarrow> outcome w' c = outcome w c \<and> (c \<in> lock_held w' \<longleftrightarrow> c \<in> lock_held w)
          \<and> done_callbacks w' c = done_callbacks w c @
              (if outcome w c = Pending then map (\<lambda>f. SelectRespond p f k fs) (filter (\<lambda>f. cell f = c) gs) else []))
     \<and> user w' = user w"
  using assms
proof (induction gs arbitrary: w)
  case Nil
  then show ?case by (simp add: ret_def)
next
  case (Cons g gs)
  let ?dc = "done_callback (Suc (Suc m))"
  let ?w1 = "if outcome w (cell g) = Pending
       then w\<lparr>done_callbacks := (done_callbacks w)(cell g := done_callbacks w (cell g) @ [SelectRespond p g k fs])\<rparr>
       else w\<lparr>outcome := (outcome w)(next_id w := Success (selected g k fs),
                p := (if outcome w p = Pending then Success (selected g k fs) else outcome w p)),
              done_callbacks := (done_callbacks w)(next_id w := []),
              lock_held := lock_held w - {next_id w},
              next_id := Suc (Suc (next_id w))\<rparr>"
  have step: "bind_op (respond ?dc g (SelectRespond p g k fs)) (\<lambda>_. ret ()) w = Some (Ret (), ?w1)"
    using Cons.prems by (intro respond_select_step) auto
  have pre: "p < next_id ?w1" "done_callbacks ?w1 p = []" "p \<notin> lock_held ?w1"
    "\<forall>f\<in>set gs. cell f < next_id ?w1 \<and> cell f \<noteq> p"
    using Cons.prems by auto
  from Cons.IH [OF pre] obtain w' where
    run: "for_each (\<lambda>f. bind_op (respond ?dc f (SelectRespond p f k fs)) (\<lambda>_. ret ())) gs ?w1 = Some (Ret (), w')"
    and nx: "next_id ?w1 \<le> next_id w'" and cb: "done_callbacks w' p = []" and lk: "p \<notin> lock_held w'"
    and out: "outcome w' p = (if outcome ?w1 p \<noteq> Pending then outcome ?w1 p
          else case find (\<lambda>f. outcome ?w1 (cell f) \<noteq> Pending) gs of
                 None \<Rightarrow> Pending | Some f \<Rightarrow> Success (selected f k fs))"
    and rest: "\<forall>c<next_id ?w1. c \<noteq> p \<longrightarrow> outcome w' c = outcome ?w1 c \<and> (c \<in> lock_held w' \<longleftrightarrow> c \<in> lock_held ?w1)
          \<and> done_callbacks w' c = done_callbacks ?w1 c @
              (if outcome ?w1 c = Pending then map (\<lambda>f. SelectRespond p f k fs) (filter (\<lambda>f. cell f = c) gs) else [])"
    and us: "user w' = user w"
    by auto
  have same: "\<forall>f\<in>set gs. outcome ?w1 (cell f) = outcome w (cell f)"
    using Cons.prems by auto
  have find_eq: "find (\<lambda>f. outcome ?w1 (cell f) \<noteq> Pending) gs = find (\<lambda>f. outcome w (cell f) \<noteq> Pending) gs"
    using same by (intro find_cong) auto
  have "for_each (\<lambda>f. bind_op (respond ?dc f (SelectRespond p f k fs)) (\<lambda>_. ret ())) (g # gs) w = Some (Ret (), w')"
    using step run by (simp add: bind_op_apply)
  moreover have "next_id w \<le> next_id w'" using nx by (auto split: if_splits)
  moreover have "outcome w' p = (if outcome w p \<noteq> Pending then outcome w p
          else case find (\<lambda>f. outcome w (cell f) \<noteq> Pending) (g # gs) of
                 None \<Rightarrow> Pending | Some f \<Rightarrow> Success (selected f k fs))"
    using out find_eq Cons.prems by (auto split: if_splits)
  moreover have "\<forall>c<next_id w. c \<noteq> p \<longrightarrow> outcome w' c = outcome w c \<and> (c \<in> lock_held w' \<longleftrightarrow> c \<in> lock_held w)
          \<and> done_callbacks w' c = done_callbacks w c @
              (if outcome w c = Pending then map (\<lambda>f. SelectRespond p f k fs) (filter (\<lambda>f. cell f = c) (g # gs)) else [])"
  proof (intro allI impI)
    fix c assume c: "c < next_id w" "c \<noteq> p"
    then have "c < next_id ?w1" by auto
    with rest c have r: "outcome w' c = outcome ?w1 c" "(c \<in> lock_held w' \<longleftrightarrow> c \<in> lock_held ?w1)"
      "done_callbacks w' c = done_callbacks ?w1 c @
              (if outcome ?w1 c = Pending then map (\<lambda>f. SelectRespond p f k fs) (filter (\<lambda>f. cell f = c) gs) else [])"
      by auto
    show "outcome w' c = outcome w c \<and> (c \<in> lock_held w' \<longleftrightarrow> c \<in> lock_held w)
          \<and> done_callbacks w' c = done_callbacks w c @
              (if outcome w c = Pending then map (\<lambda>f. SelectRespond p f k fs) (filter (\<lambda>f. cell f = c) (g # gs)) else [])"
      using r c Cons.prems by (auto split: if_splits)
  qed
  ultimately show ?case using cb lk us by blast
qed


lemma fire_all_select:
  assumes "p < next_id w" and "done_callbacks w p = []" and "p \<notin> lock_held w"
  shows "\<exists>w'. for_each (\<lambda>cb. done_callback (Suc (Suc m)) cb c) (map (\<lambda>f. SelectRespond p f k fs) gs) w
        = Some (Ret (), w')
     \<and> next_id w \<le> next_id w' \<and> done_callbacks w' p = [] \<and> p \<notin> lock_held w'
     \<and> outcome w' p = (if outcome w p \<noteq> Pending then outcome w p
          else case gs of [] \<Rightarrow> Pending | f # _ \<Rightarrow> Success (selected f k fs))
     \<and> (\<forall>c'<next_id w. c' \<noteq> p \<longrightarrow> outcome w' c' = outcome w c' \<and> (c' \<in> lock_held w' \<longleftrightarrow> c' \<in> lock_held w)
          \<and> done_callbacks w' c' = done_callbacks w c')
     \<and> user w' = user w"
  using assms
proof (induction gs arbitrary: w)
  case Nil
  then show ?case by (simp add: ret_def)
next
  case (Cons g gs)
  let ?dc = "done_callback (Suc (Suc m))"
  let ?w1 = "w\<lparr>outcome := (outcome w)(next_id w := Success (selected g k fs),
                p := (if outcome w p = Pending then Success (selected g k fs) else outcome w p)),
              done_callbacks := (done_callbacks w)(next_id w := []),
              lock_held := lock_held w - {next_id w},
              next_id := Suc (Suc (next_id w))\<rparr>"
  have step: "?dc (SelectRespond p g k fs) c w = Some (Ret (), ?w1)"
    using Cons.prems by (intro fire_select) auto
  have pre: "p < next_id ?w1" "done_callbacks ?w1 p = []" "p \<notin> lock_held ?w1"
    using Cons.prems by auto
  from Cons.IH [OF pre] obtain w' where
    run: "for_each (\<lambda>cb. ?dc cb c) (map (\<lambda>f. SelectRespond p f k fs) gs) ?w1 = Some (Ret (), w')"
    and nx: "next_id ?w1 \<le> next_id w'" and cb: "done_callbacks w' p = []" and lk: "p \<notin> lock_held w'"
    and out: "outcome w' p = (if outcome ?w1 p \<noteq> Pending then outcome ?w1 p
          else case gs of [] \<Rightarrow> Pending | f # _ \<Rightarrow> Success (selected f k fs))"
    and rest: "\<forall>c'<next_id ?w1. c' \<noteq> p \<longrightarrow> outcome w' c' = outcome ?w1 c' \<and> (c' \<in> lock_held w' \<longleftrightarrow> c' \<in> lock_held ?w1)
          \<and> done_callbacks w' c' = done_callbacks ?w1 c'"
    and us: "user w' = user w"
    by auto
  have "for_each (\<lambda>cb. ?dc cb c) (map (\<lambda>f. SelectRespond p f k fs) (g # gs)) w = Some (Ret (), w')"
    using step run by (simp add: bind_op_apply)
  moreover have "next_id w \<le> next_id w'" using nx by auto
  moreover have "outcome w' p = (if outcome w p \<noteq> Pending then outcome w p
          else case g # gs of [] \<Rightarrow> Pending | f # _ \<Rightarrow> Success (selected f k fs))"
    using out Cons.prems by auto
  moreover have "\<forall>c'<next_id w. c' \<noteq> p \<longrightarrow> outcome w' c' = outcome w c' \<and> (c' \<in> lock_held w' \<longleftrightarrow> c' \<in> lock_held w)
          \<and> done_callbacks w' c' = done_callbacks w c'"
  proof (intro allI impI)
    fix c' assume c: "c' < next_id w" "c' \<noteq> p"
    then have "c' < next_id ?w1" by auto
    with rest c have "outcome w' c' = outcome ?w1 c'" "(c' \<in> lock_held w' \<longleftrightarrow> c' \<in> lock_held ?w1)"
      "done_callbacks w' c' = done_callbacks ?w1 c'"
      by auto
    then show "outcome w' c' = outcome w c' \<and> (c' \<in> lock_held w' \<longleftrightarrow> c' \<in> lock_held w)
          \<and> done_callbacks w' c' = done_callbacks w c'"
      using c by auto
  qed
  ultimately show ?case using cb lk us by blast
qed

lemma select_event:
  assumes "p < next_id w" and "done_callbacks w p = []" and "p \<notin> lock_held w"
    and "ev_cell ev < next_id w" and "ev_cell ev \<noteq> p" and "outcome w (ev_cell ev) = Pending"
    and "ev_cell ev \<notin> lock_held w"
    and "done_callbacks w (ev_cell ev) = map (\<lambda>f. SelectRespond p f k fs) gs"
  shows "\<exists>w'. resolve (done_callback (Suc (Suc m))) ev w = Some (Ret (Promise (ev_cell ev)), w')
     \<and> next_id w \<le> next_id w' \<and> done_callbacks w' p = [] \<and> p \<notin> lock_held w'
     \<and> outcome w' p = (if outcome w p \<noteq> Pending then outcome w p
          else case gs of [] \<Rightarrow> Pending | f # _ \<Rightarrow> Success (selected f k fs))
     \<and> outcome w' (ev_cell ev) = ev_outcome ev
     \<and> (\<forall>c'<next_id w. c' \<noteq> p \<longrightarrow> c' \<noteq> ev_cell ev \<longrightarrow> outcome w' c' = outcome w c'
          \<and> (c' \<in> lock_held w' \<longleftrightarrow> c' \<in> lock_held w) \<and> done_callbacks w' c' = done_callbacks w c')
     \<and> user w' = user w"
proof -
  let ?c = "ev_cell ev"
  let ?wa = "w\<lparr>lock_held := insert ?c (lock_held w), outcome := (outcome w)(?c := ev_outcome ev)\<rparr>"
  have pre: "p < next_id ?wa" "done_callbacks ?wa p = []" "p \<notin> lock_held ?wa"
    using assms by auto
  from fire_all_select [OF pre, of m ?c k fs gs] obtain w1 where
    run: "for_each (\<lambda>cb. done_callback (Suc (Suc m)) cb ?c) (map (\<lambda>f. SelectRespond p f k fs) gs) ?wa = Some (Ret (), w1)"
    and nx: "next_id ?wa \<le> next_id w1" and cb: "done_callbacks w1 p = []" and lk: "p \<notin> lock_held w1"
    and out: "outcome w1 p = (if outcome ?wa p \<noteq> Pending then outcome ?wa p
          else case gs of [] \<Rightarrow> Pending | f # _ \<Rightarrow> Success (selected f k fs))"
    and rest: "\<forall>c'<next_id ?wa. c' \<noteq> p \<longrightarrow> outcome w1 c' = outcome ?wa c' \<and> (c' \<in> lock_held w1 \<longleftrightarrow> c' \<in> lock_held ?wa)
          \<and> done_callbacks w1 c' = done_callbacks ?wa c'"
    and us: "user w1 = user ?wa"
    by blast
  let ?w' = "w1\<lparr>lock_held := lock_held w1 - {?c}\<rparr>"
  have "resolve (done_callback (Suc (Suc m))) ev w = Some (Ret (Promise ?c), ?w')"
    using assms run
    by (cases ev) (simp_all add: setvalue_def setexception_def with_lock_def bind_op_apply
        isdefined_def set_outcome_def ret_def)
  moreover have "outcome ?w' ?c = ev_outcome ev"
    using rest assms by auto
  moreover have "\<forall>c'<next_id w. c' \<noteq> p \<longrightarrow> c' \<noteq> ?c \<longrightarrow> outcome ?w' c' = outcome w c'
          \<and> (c' \<in> lock_held ?w' \<longleftrightarrow> c' \<in> lock_held w) \<and> done_callbacks ?w' c' = done_callbacks w c'"
    using rest by auto
  moreover have "outcome ?w' p = (if outcome w p \<noteq> Pending then outcome w p
          else case gs of [] \<Rightarrow> Pending | f # _ \<Rightarrow> Success (selected f k fs))"
    using out assms by auto
  ultimately show ?thesis using nx cb lk us by (intro exI [of _ ?w']) auto
qed


lemma select_events:
  assumes "p < next_id w" and "done_callbacks w p = []" and "p \<notin> lock_held w"
    and "\<forall>ev\<in>set evs. ev_cell ev < next_id w \<and> ev_cell ev \<noteq> p \<and> outcome w (ev_cell ev) = Pending
           \<and> ev_cell ev \<notin> lock_held w \<and> filter (\<lambda>f. cell f = ev_cell ev) fs \<noteq> []
           \<and> done_callbacks w (ev_cell ev) = map (\<lambda>f. SelectRespond p f k fs) (filter (\<lambda>f. cell f = ev_cell ev) fs)"
    and "distinct (map ev_cell evs)"
  shows "\<exists>w'. resolve_all (done_callback (Suc (Suc m))) evs w = Some w'
     \<and> next_id w \<le> next_id w' \<and> done_callbacks w' p = [] \<and> p \<notin> lock_held w'
     \<and> outcome w' p = (if outcome w p \<noteq> Pending then outcome w p
          else case evs of [] \<Rightarrow> Pending
               | ev # _ \<Rightarrow> Success (selected (hd (filter (\<lambda>f. cell f = ev_cell ev) fs)) k fs))
     \<and> (\<forall>ev\<in>set evs. outcome w' (ev_cell ev) = ev_outcome ev)
     \<and> (\<forall>c'<next_id w. c' \<noteq> p \<longrightarrow> c' \<notin> ev_cell ` set evs \<longrightarrow> outcome w' c' = outcome w c'
          \<and> (c' \<in> lock_held w' \<longleftrightarrow> c' \<in> lock_held w) \<and> done_callbacks w' c' = done_callbacks w c')
     \<and> user w' = user w"
  using assms
proof (induction evs arbitrary: w)
  case Nil
  then show ?case by simp
next
  case (Cons ev evs)
  let ?dc = "done_callback (Suc (Suc m))"
  let ?gs = "filter (\<lambda>f. cell f = ev_cell ev) fs"
  have ev: "ev_cell ev < next_id w" "ev_cell ev \<noteq> p" "outcome w (ev_cell ev) = Pending"
    "ev_cell ev \<notin> lock_held w" "?gs \<noteq> []"
    "done_callbacks w (ev_cell ev) = map (\<lambda>f. SelectRespond p f k fs) ?gs"
    using Cons.prems(4) by auto
  from select_event [OF Cons.prems(1-3) ev(1-4) ev(6), of m] obtain w1 where
    r1: "resolve ?dc ev w = Some (Ret (Promise (ev_cell ev)), w1)"
    and nx1: "next_id w \<le> next_id w1" and cb1: "done_callbacks w1 p = []" and lk1: "p \<notin> lock_held w1"
    and out1: "outcome w1 p = (if outcome w p \<noteq> Pending then outcome w p
          else case ?gs of [] \<Rightarrow> Pending | f # _ \<Rightarrow> Success (selected f k fs))"
    and oc1: "outcome w1 (ev_cell ev) = ev_outcome ev"
    and rest1: "\<forall>c'<next_id w. c' \<noteq> p \<longrightarrow> c' \<noteq> ev_cell ev \<longrightarrow> outcome w1 c' = outcome w c'
          \<and> (c' \<in> lock_held w1 \<longleftrightarrow> c' \<in> lock_held w) \<and> done_callbacks w1 c' = done_callbacks w c'"
    and us1: "user w1 = user w"
    by blast
  have p1: "p < next_id w1" using Cons.prems(1) nx1 by simp
  have notin: "ev_cell ev \<notin> ev_cell ` set evs" using Cons.prems(5) by auto
  have pre4: "\<forall>e\<in>set evs. ev_cell e < next_id w1 \<and> ev_cell e \<noteq> p \<and> outcome w1 (ev_cell e) = Pending
           \<and> ev_cell e \<notin> lock_held w1 \<and> filter (\<lambda>f. cell f = ev_cell e) fs \<noteq> []
           \<and> done_callbacks w1 (ev_cell e) = map (\<lambda>f. SelectRespond p f k fs) (filter (\<lambda>f. cell f = ev_cell e) fs)"
  proof
    fix e assume e: "e \<in> set evs"
    then have h: "ev_cell e < next_id w" "ev_cell e \<noteq> p" "outcome w (ev_cell e) = Pending"
      "ev_cell e \<notin> lock_held w" "filter (\<lambda>f. cell f = ev_cell e) fs \<noteq> []"
      "done_callbacks w (ev_cell e) = map (\<lambda>f. SelectRespond p f k fs) (filter (\<lambda>f. cell f = ev_cell e) fs)"
      using Cons.prems(4) by auto
    have ne: "ev_cell e \<noteq> ev_cell ev" using e notin by (metis image_eqI)
    show "ev_cell e < next_id w1 \<and> ev_cell e \<noteq> p \<and> outcome w1 (ev_cell e) = Pending
           \<and> ev_cell e \<notin> lock_held w1 \<and> filter (\<lambda>f. cell f = ev_cell e) fs \<noteq> []
           \<and> done_callbacks w1 (ev_cell e) = map (\<lambda>f. SelectRespond p f k fs) (filter (\<lambda>f. cell f = ev_cell e) fs)"
      using h ne rest1 nx1 by auto
  qed
  have d: "distinct (map ev_cell evs)" using Cons.prems(5) by simp
  from Cons.IH [OF p1 cb1 lk1 pre4 d] obtain w' where
    r2: "resolve_all ?dc evs w1 = Some w'"
    and nx2: "next_id w1 \<le> next_id w'" and cb2: "done_callbacks w' p = []" and lk2: "p \<notin> lock_held w'"
    and out2: "outcome w' p = (if outcome w1 p \<noteq> Pending then outcome w1 p
          else case evs of [] \<Rightarrow> Pending
               | ev # _ \<Rightarrow> Success (selected (hd (filter (\<lambda>f. cell f = ev_cell ev) fs)) k fs))"
    and oc2: "\<forall>e\<in>set evs. outcome w' (ev_cell e) = ev_outcome e"
    and rest2: "\<forall>c'<next_id w1. c' \<noteq> p \<longrightarrow> c' \<notin> ev_cell ` set evs \<longrightarrow> outcome w' c' = outcome w1 c'
          \<and> (c' \<in> lock_held w' \<longleftrightarrow> c' \<in> lock_held w1) \<and> done_callbacks w' c' = done_callbacks w1 c'"
    and us2: "user w' = user w1"
    by blast
  have "resolve_all ?dc (ev # evs) w = Some w'" using r1 r2 by simp
  moreover have "next_id w \<le> next_id w'" using nx1 nx2 by simp
  moreover have "outcome w' p = (if outcome w p \<noteq> Pending then outcome w p
          else case ev # evs of [] \<Rightarrow> Pending
               | ev # _ \<Rightarrow> Success (selected (hd (filter (\<lambda>f. cell f = ev_cell ev) fs)) k fs))"
    using out1 out2 ev(5) by (cases ?gs) auto
  moreover have "\<forall>e\<in>set (ev # evs). outcome w' (ev_cell e) = ev_outcome e"
  proof -
    have "ev_cell ev < next_id w1" using ev(1) nx1 by simp
    with rest2 ev(2) notin have "outcome w' (ev_cell ev) = outcome w1 (ev_cell ev)" by blast
    with oc1 oc2 show ?thesis by simp
  qed
  moreover have "\<forall>c'<next_id w. c' \<noteq> p \<longrightarrow> c' \<notin> ev_cell ` set (ev # evs) \<longrightarrow> outcome w' c' = outcome w c'
          \<and> (c' \<in> lock_held w' \<longleftrightarrow> c' \<in> lock_held w) \<and> done_callbacks w' c' = done_callbacks w c'"
  proof (intro allI impI)
    fix c' assume c: "c' < next_id w" "c' \<noteq> p" "c' \<notin> ev_cell ` set (ev # evs)"
    then have a: "c' \<noteq> ev_cell ev" "c' \<notin> ev_cell ` set evs" "c' < next_id w1" using nx1 by auto
    from rest1 c(1,2) a(1) have b1: "outcome w1 c' = outcome w c'"
      "(c' \<in> lock_held w1 \<longleftrightarrow> c' \<in> lock_held w)" "done_callbacks w1 c' = done_callbacks w c'" by blast+
    from rest2 a(3) c(2) a(2) have b2: "outcome w' c' = outcome w1 c'"
      "(c' \<in> lock_held w' \<longleftrightarrow> c' \<in> lock_held w1)" "done_callbacks w' c' = done_callbacks w1 c'" by blast+
    show "outcome w' c' = outcome w c'
          \<and> (c' \<in> lock_held w' \<longleftrightarrow> c' \<in> lock_held w) \<and> done_callbacks w' c' = done_callbacks w c'"
      using b1 b2 by simp
  qed
  ultimately show ?case using cb2 lk2 us1 us2 by (intro exI [of _ w']) simp
qed

lemma select_call:
  assumes "fs \<noteq> []" and "\<forall>f\<in>set fs. cell f < next_id w"
  shows "\<exists>w'. select (done_callback (Suc (Suc m))) k fs w = Some (Ret (Promise (next_id w)), w')
     \<and> next_id w < next_id w' \<and> done_callbacks w' (next_id w) = [] \<and> next_id w \<notin> lock_held w'
     \<and> outcome w' (next_id w) = (case find (\<lambda>f. outcome w (cell f) \<noteq> Pending) fs of
                 None \<Rightarrow> Pending | Some f \<Rightarrow> Success (selected f k fs))
     \<and> (\<forall>c<next_id w. outcome w' c = outcome w c \<and> (c \<in> lock_held w' \<longleftrightarrow> c \<in> lock_held w)
          \<and> done_callbacks w' c = done_callbacks w c @
              (if outcome w c = Pending then map (\<lambda>f. SelectRespond (next_id w) f k fs) (filter (\<lambda>f. cell f = c) fs) else []))
     \<and> user w' = user w"
proof -
  let ?p = "next_id w"
  let ?w0 = "w\<lparr>outcome := (outcome w)(?p := Pending), done_callbacks := (done_callbacks w)(?p := []),
       lock_held := lock_held w - {?p}, next_id := Suc ?p\<rparr>"
  have pre: "?p < next_id ?w0" "done_callbacks ?w0 ?p = []" "?p \<notin> lock_held ?w0"
    "\<forall>f\<in>set fs. cell f < next_id ?w0 \<and> cell f \<noteq> ?p"
    using assms(2) by auto
  from select_loop [OF pre, of m k fs] obtain w' where
    run: "for_each (\<lambda>f. bind_op (respond (done_callback (Suc (Suc m))) f (SelectRespond ?p f k fs)) (\<lambda>_. ret ())) fs ?w0
        = Some (Ret (), w')"
    and nx: "next_id ?w0 \<le> next_id w'" and cb: "done_callbacks w' ?p = []" and lk: "?p \<notin> lock_held w'"
    and out: "outcome w' ?p = (if outcome ?w0 ?p \<noteq> Pending then outcome ?w0 ?p
          else case find (\<lambda>f. outcome ?w0 (cell f) \<noteq> Pending) fs of
                 None \<Rightarrow> Pending | Some f \<Rightarrow> Success (selected f k fs))"
    and rest: "\<forall>c<next_id ?w0. c \<noteq> ?p \<longrightarrow> outcome w' c = outcome ?w0 c \<and> (c \<in> lock_held w' \<longleftrightarrow> c \<in> lock_held ?w0)
          \<and> done_callbacks w' c = done_callbacks ?w0 c @
              (if outcome ?w0 c = Pending then map (\<lambda>f. SelectRespond ?p f k fs) (filter (\<lambda>f. cell f = c) fs) else [])"
    and us: "user w' = user ?w0"
    by blast
  have find_eq: "find (\<lambda>f. outcome ?w0 (cell f) \<noteq> Pending) fs = find (\<lambda>f. outcome w (cell f) \<noteq> Pending) fs"
    using assms(2) by (intro find_cong) auto
  have "select (done_callback (Suc (Suc m))) k fs w = Some (Ret (Promise ?p), w')"
    using run assms(1) by (simp add: select_def bind_op_apply new_promise_def ret_def)
  moreover have "outcome w' ?p = (case find (\<lambda>f. outcome w (cell f) \<noteq> Pending) fs of
                 None \<Rightarrow> Pending | Some f \<Rightarrow> Success (selected f k fs))"
    using out find_eq by simp
  moreover have "\<forall>c<next_id w. outcome w' c = outcome w c \<and> (c \<in> lock_held w' \<longleftrightarrow> c \<in> lock_held w)
          \<and> done_callbacks w' c = done_callbacks w c @
              (if outcome w c = Pending then map (\<lambda>f. SelectRespond ?p f k fs) (filter (\<lambda>f. cell f = c) fs) else [])"
    using rest by auto
  ultimately show ?thesis using nx cb lk us by (intro exI [of _ w']) auto
qed


lemma find_Some_hd_filter: "find P xs = Some x \<Longrightarrow> filter P xs \<noteq> [] \<and> hd (filter P xs) = x"
  by (induction xs) (auto split: if_splits)

lemma select_then_events:
  assumes "fs \<noteq> []" and "\<forall>f\<in>set fs. cell f < next_id w"
    and "\<forall>f\<in>set fs. outcome w (cell f) = Pending"
    and "distinct (map ev_cell (ev # evs))"
    and "\<forall>e\<in>set (ev # evs). ev_cell e \<in> cell ` set fs \<and> done_callbacks w (ev_cell e) = [] \<and> ev_cell e \<notin> lock_held w"
    and "find (\<lambda>f. cell f = ev_cell ev) fs = Some f"
  shows "\<exists>w' w''. select (done_callback (Suc (Suc m))) k fs w = Some (Ret (Promise (next_id w)), w')
     \<and> outcome w' (next_id w) = Pending
     \<and> resolve_all (done_callback (Suc (Suc m))) (ev # evs) w' = Some w''
     \<and> outcome w'' (next_id w) = Success (selected f k fs)
     \<and> (\<forall>e\<in>set (ev # evs). outcome w'' (ev_cell e) = ev_outcome e)"
proof -
  let ?p = "next_id w"
  let ?dc = "done_callback (Suc (Suc m))"
  from select_call [OF assms(1,2), of m k] obtain w' where
    sel: "select ?dc k fs w = Some (Ret (Promise ?p), w')"
    and nx: "?p < next_id w'" and cb: "done_callbacks w' ?p = []" and lk: "?p \<notin> lock_held w'"
    and out: "outcome w' ?p = (case find (\<lambda>f. outcome w (cell f) \<noteq> Pending) fs of
                 None \<Rightarrow> Pending | Some f \<Rightarrow> Success (selected f k fs))"
    and rest: "\<forall>c<?p. outcome w' c = outcome w c \<and> (c \<in> lock_held w' \<longleftrightarrow> c \<in> lock_held w)
          \<and> done_callbacks w' c = done_callbacks w c @
              (if outcome w c = Pending then map (\<lambda>f. SelectRespond ?p f k fs) (filter (\<lambda>f. cell f = c) fs) else [])"
    by blast
  have none: "find (\<lambda>f. outcome w (cell f) \<noteq> Pending) fs = None"
    using assms(3) by (simp add: find_None_iff)
  have pend: "outcome w' ?p = Pending" using out none by simp
  have pre: "\<forall>e\<in>set (ev # evs). ev_cell e < next_id w' \<and> ev_cell e \<noteq> ?p \<and> outcome w' (ev_cell e) = Pending
           \<and> ev_cell e \<notin> lock_held w' \<and> filter (\<lambda>f. cell f = ev_cell e) fs \<noteq> []
           \<and> done_callbacks w' (ev_cell e) = map (\<lambda>f. SelectRespond ?p f k fs) (filter (\<lambda>f. cell f = ev_cell e) fs)"
  proof
    fix e assume e: "e \<in> set (ev # evs)"
    with assms(5) obtain g where g: "g \<in> set fs" "ev_cell e = cell g"
      and h: "done_callbacks w (ev_cell e) = []" "ev_cell e \<notin> lock_held w" by auto
    have lt: "ev_cell e < ?p" using g assms(2) by auto
    have pd: "outcome w (ev_cell e) = Pending" using g assms(3) by auto
    have ne: "filter (\<lambda>f. cell f = ev_cell e) fs \<noteq> []" using g by (auto simp: filter_empty_conv)
    show "ev_cell e < next_id w' \<and> ev_cell e \<noteq> ?p \<and> outcome w' (ev_cell e) = Pending
           \<and> ev_cell e \<notin> lock_held w' \<and> filter (\<lambda>f. cell f = ev_cell e) fs \<noteq> []
           \<and> done_callbacks w' (ev_cell e) = map (\<lambda>f. SelectRespond ?p f k fs) (filter (\<lambda>f. cell f = ev_cell e) fs)"
      using lt pd ne h rest nx by auto
  qed
  from select_events [OF nx cb lk pre assms(4), of m] obtain w'' where
    run: "resolve_all ?dc (ev # evs) w' = Some w''"
    and out2: "outcome w'' ?p = (if outcome w' ?p \<noteq> Pending then outcome w' ?p
          else case ev # evs of [] \<Rightarrow> Pending
               | ev # _ \<Rightarrow> Success (selected (hd (filter (\<lambda>f. cell f = ev_cell ev) fs)) k fs))"
    and oc: "\<forall>e\<in>set (ev # evs). outcome w'' (ev_cell e) = ev_outcome e"
    by blast
  have "outcome w'' ?p = Success (selected f k fs)"
    using out2 pend find_Some_hd_filter [OF assms(6)] by simp
  with sel pend run oc show ?thesis by blast
qed

text \<open>
  C4. Let \<open>fs\<close> be a non-empty sequence of promises and futures of the store. (1) If
  some input is already resolved, \<open>select\<close> returns a promise that is resolved to the pair
  of the first resolved input \<open>f\<close> of \<open>fs\<close> and \<open>fs\<close> without \<open>f\<close>. (2) If all inputs
  are pending, the returned promise is pending; as soon as the first of them is resolved,
  by \<open>setvalue\<close> or by \<open>setexception\<close>, it is resolved to the pair of that input (the
  first handle of \<open>fs\<close> on the resolved promise) and \<open>fs\<close> without it, and resolving
  further inputs does not change it. The inputs resolved in (2) had no callback before
  the call and their locks are free; the others are arbitrary.
\<close>

theorem select_first_wins:
  assumes "fs \<noteq> []" and "\<forall>f\<in>set fs. cell f < next_id w"
  shows "(find (\<lambda>f. outcome w (cell f) \<noteq> Pending) fs = Some f \<longrightarrow>
           (\<exists>w'. select (done_callback (Suc (Suc m))) k fs w = Some (Ret (Promise (next_id w)), w')
              \<and> outcome w' (next_id w) = Success (selected f k fs)))
       \<and> ((\<forall>f\<in>set fs. outcome w (cell f) = Pending) \<and> distinct (map ev_cell (ev # evs))
            \<and> (\<forall>e\<in>set (ev # evs). ev_cell e \<in> cell ` set fs \<and> done_callbacks w (ev_cell e) = []
                  \<and> ev_cell e \<notin> lock_held w)
            \<and> find (\<lambda>f. cell f = ev_cell ev) fs = Some g \<longrightarrow>
           (\<exists>w' w1 w2. select (done_callback (Suc (Suc m))) k fs w = Some (Ret (Promise (next_id w)), w')
              \<and> outcome w' (next_id w) = Pending
              \<and> resolve_all (done_callback (Suc (Suc m))) [ev] w' = Some w1
              \<and> outcome w1 (next_id w) = Success (selected g k fs)
              \<and> outcome w1 (ev_cell ev) = ev_outcome ev
              \<and> resolve_all (done_callback (Suc (Suc m))) (ev # evs) w' = Some w2
              \<and> outcome w2 (next_id w) = Success (selected g k fs)))"
proof (intro conjI impI)
  assume "find (\<lambda>f. outcome w (cell f) \<noteq> Pending) fs = Some f"
  with select_call [OF assms, of m k]
  show "\<exists>w'. select (done_callback (Suc (Suc m))) k fs w = Some (Ret (Promise (next_id w)), w')
              \<and> outcome w' (next_id w) = Success (selected f k fs)"
    by auto
next
  assume a: "(\<forall>f\<in>set fs. outcome w (cell f) = Pending) \<and> distinct (map ev_cell (ev # evs))
            \<and> (\<forall>e\<in>set (ev # evs). ev_cell e \<in> cell ` set fs \<and> done_callbacks w (ev_cell e) = []
                  \<and> ev_cell e \<notin> lock_held w)
            \<and> find (\<lambda>f. cell f = ev_cell ev) fs = Some g"
  then have a1: "\<forall>f\<in>set fs. outcome w (cell f) = Pending" and a2: "distinct (map ev_cell (ev # evs))"
    and a3: "\<forall>e\<in>set (ev # evs). ev_cell e \<in> cell ` set fs \<and> done_callbacks w (ev_cell e) = [] \<and> ev_cell e \<notin> lock_held w"
    and a4: "find (\<lambda>f. cell f = ev_cell ev) fs = Some g" by blast+
  have b2: "distinct (map ev_cell [ev])" by simp
  have b3: "\<forall>e\<in>set [ev]. ev_cell e \<in> cell ` set fs \<and> done_callbacks w (ev_cell e) = [] \<and> ev_cell e \<notin> lock_held w"
    using a3 by simp
  from select_then_events [OF assms a1 b2 b3 a4, of m k]
    select_then_events [OF assms a1 a2 a3 a4, of m k]
  show "\<exists>w' w1 w2. select (done_callback (Suc (Suc m))) k fs w = Some (Ret (Promise (next_id w)), w')
              \<and> outcome w' (next_id w) = Pending
              \<and> resolve_all (done_callback (Suc (Suc m))) [ev] w' = Some w1
              \<and> outcome w1 (next_id w) = Success (selected g k fs)
              \<and> outcome w1 (ev_cell ev) = ev_outcome ev
              \<and> resolve_all (done_callback (Suc (Suc m))) (ev # evs) w' = Some w2
              \<and> outcome w2 (next_id w) = Success (selected g k fs)"
    by (metis list.set_intros(1) option.inject prod.inject res.inject)
qed

theorem select_first_wins_witness:
  "[Promise 0, Future 2 1] \<noteq> []
   \<and> cell (Promise 0) < next_id (world_of [Pending, Success (VInt 3), Pending])
   \<and> cell (Future 2 1) < next_id (world_of [Pending, Success (VInt 3), Pending])
   \<and> find (\<lambda>f. outcome (world_of [Pending, Success (VInt 3), Pending]) (cell f) \<noteq> Pending) [Promise 0, Future 2 1]
       = Some (Future 2 1)
   \<and> (\<exists>w'. select (done_callback 2) PyList [Promise 0, Future 2 1] (world_of [Pending, Success (VInt 3), Pending])
          = Some (Ret (Promise 3), w')
        \<and> outcome w' 3 = Success (VSeq PyTuple [VObj (Future 2 1), VSeq PyList [VObj (Promise 0)]]))
   \<and> cell (Promise 0) < next_id (world_of [Pending, Pending])
   \<and> cell (Promise 1) < next_id (world_of [Pending, Pending])
   \<and> outcome (world_of [Pending, Pending]) 0 = Pending \<and> outcome (world_of [Pending, Pending]) 1 = Pending
   \<and> distinct (map ev_cell [Fails 1 (PyException VNone), Succeeds 0 (VInt 4)])
   \<and> find (\<lambda>f. cell f = ev_cell (Fails 1 (PyException VNone))) [Promise 0, Promise 1] = Some (Promise 1)
   \<and> (\<exists>w' w1 w2. select (done_callback 2) PyList [Promise 0, Promise 1] (world_of [Pending, Pending])
          = Some (Ret (Promise 2), w')
        \<and> outcome w' 2 = Pending
        \<and> resolve_all (done_callback 2) [Fails 1 (PyException VNone)] w' = Some w1
        \<and> outcome w1 2 = Success (VSeq PyTuple [VObj (Promise 1), VSeq PyList [VObj (Promise 0)]])
        \<and> outcome w1 1 = Failure (PyException VNone)
        \<and> resolve_all (done_callback 2) [Fails 1 (PyException VNone), Succeeds 0 (VInt 4)] w' = Some w2
        \<and> outcome w2 2 = Success (VSeq PyTuple [VObj (Promise 1), VSeq PyList [VObj (Promise 0)]]))"
  using select_first_wins [of "[Promise 0, Future 2 1]" "world_of [Pending, Success (VInt 3), Pending]"
      "Future 2 1" 0 PyList "Succeeds 0 VNone" "[]" "Promise 0"]
    select_first_wins [of "[Promise 0, Promise 1]" "world_of [Pending, Pending]"
      "Promise 0" 0 PyList "Fails 1 (PyException VNone)" "[Succeeds 0 (VInt 4)]" "Promise 1"]
  by (simp add: world_of_def init_world_def selected_def numeral_2_eq_2 numeral_3_eq_3)

section \<open>within\<close>




















section \<open>collect\<close>

lemma exception_eq:
  "exception dc e w = Some (Ret (Future (Suc (next_id w)) (next_id w)),
     w\<lparr>outcome := (outcome w)(next_id w := Failure e),
       done_callbacks := (done_callbacks w)(next_id w := []),
       lock_held := lock_held w - {next_id w},
       next_id := Suc (Suc (next_id w))\<rparr>)"
  by (simp add: exec_defs)




































section \<open>Future\<close>

text \<open>
  The two methods that class \<open>Future\<close> overrides raise \<open>AttributeError\<close> at once: nothing
  is dispatched and the store is returned as it was.
\<close>

lemma future_rejects_writes:
  "setvalue dc (Future i c) v w = Some (Raise AttributeError, w)
   \<and> setexception dc (Future i c) e w = Some (Raise AttributeError, w)"
  by (simp add: setvalue_def setexception_def raise_def)

text \<open>
  The reads through a Future are the reads of the bound Promise, and a read, when it
  returns, returns the store it was given.
\<close>

lemma future_reads_delegate:
  "isdefined (Future i c) w = isdefined (Promise c) w
   \<and> get (Future i c) t w = get (Promise c) t w
   \<and> getorelse (Future i c) d w = getorelse (Promise c) d w
   \<and> issuccess (Future i c) w = issuccess (Promise c) w
   \<and> isfailure (Future i c) w = isfailure (Promise c) w"
  by (simp add: isdefined_def get_def getorelse_def issuccess_def isfailure_def
      cong del: if_weak_cong)

lemma reads_keep_store:
  "(case isdefined h w of None \<Rightarrow> True | Some (r, w') \<Rightarrow> w' = w)
   \<and> (case get h t w of None \<Rightarrow> True | Some (r, w') \<Rightarrow> w' = w)
   \<and> (case getorelse h d w of None \<Rightarrow> True | Some (r, w') \<Rightarrow> w' = w)
   \<and> (case issuccess h w of None \<Rightarrow> True | Some (r, w') \<Rightarrow> w' = w)
   \<and> (case isfailure h w of None \<Rightarrow> True | Some (r, w') \<Rightarrow> w' = w)"
  by (simp add: isdefined_def get_def getorelse_def issuccess_def isfailure_def bind_op_apply
      try_except_else_def ret_def split: rstate.splits option.splits)


end
